theory Spec2Isabelle
  imports Complex_Main "HOL-Library.AList" "HOL-Library.Sublist" "HOL-Library.Log_Nat"
begin

section \<open>Token store (bot.py: \<open>_url_store\<close>, \<open>_store_url\<close>, \<open>_get_url\<close>)\<close>

text \<open>
  The module-level dict \<open>_url_store\<close> maps short keys to URLs. A Python dict keeps its
  keys in insertion order, and \<open>_store_url\<close> depends on that order (it deletes the first
  half of \<open>list(_url_store.keys())\<close>), so the dict is an association list in insertion
  order: assigning to a key that is present replaces the value where it stands, assigning
  to a new key appends (\<^const>\<open>AList.update\<close>); \<open>del d[k]\<close> is \<^const>\<open>AList.delete\<close>;
  \<open>d.get(k)\<close> is \<^const>\<open>map_of\<close>.

  \<open>hashlib.md5(url.encode()).hexdigest()\<close> is the standard library's; it is the
  parameter \<open>md5_hexdigest\<close> of the model. Strings are byte strings, so \<open>url.encode()\<close>
  (UTF-8) is the identity.
\<close>

type_synonym url_store = "(string \<times> string) list"

definition URL_STORE_MAX :: nat where
  "URL_STORE_MAX = 100"

definition evict_oldest_half :: "url_store \<Rightarrow> url_store" where
  "evict_oldest_half store =
     (let keys = map fst store
      in fold AList.delete (take (length keys div 2) keys) store)"

definition url_key :: "(string \<Rightarrow> string) \<Rightarrow> string \<Rightarrow> string" where
  "url_key md5_hexdigest url = take 10 (md5_hexdigest url)"

definition store_url :: "(string \<Rightarrow> string) \<Rightarrow> url_store \<Rightarrow> string \<Rightarrow> string \<times> url_store" where
  "store_url md5_hexdigest store url =
     (let store1 = (if length store \<ge> URL_STORE_MAX then evict_oldest_half store else store);
          key = url_key md5_hexdigest url
      in (key, AList.update key url store1))"


text \<open>The store after a sequence of calls of \<open>_store_url\<close>, from the empty dict the module starts with.\<close>

definition store_urls :: "(string \<Rightarrow> string) \<Rightarrow> string list \<Rightarrow> url_store" where
  "store_urls md5_hexdigest urls = fold (\<lambda>url store. snd (store_url md5_hexdigest store url)) urls []"

text \<open>A hundred URLs whose first two characters differ pairwise: \<open>00\<close> to \<open>99\<close>.\<close>

definition example_urls :: "string list" where
  "example_urls = map (\<lambda>n. [char_of (48 + n div 10), char_of (48 + n mod 10)]) [0..<100]"

section \<open>Progress throttler (bot.py: \<open>update_progress\<close> in \<open>handle_callback\<close>)\<close>

text \<open>Python's \<open>str\<close> of an integer, used by the f-strings of the source.\<close>

fun str_nat :: "nat \<Rightarrow> string" where
  "str_nat n = (if n < 10 then [''0123456789'' ! n] else str_nat (n div 10) @ [''0123456789'' ! (n mod 10)])"

definition str_int :: "int \<Rightarrow> string" where
  "str_int i = (if i < 0 then CHR ''-'' # str_nat (nat (- i)) else str_nat (nat i))"

text \<open>
  The coroutine wakes every 2 seconds and reads \<open>last_update[0]\<close> under the lock. Its
  input is the list of the values it reads, one per wake-up; the list ends where
  \<open>progress_task.cancel()\<close> stops the coroutine. Its output is the list of the calls of
  \<open>progress_msg.edit_text\<close> it makes (the observer), each with the percent value read
  and the text sent. An exception of \<open>edit_text\<close> is swallowed by the source after the
  call was made and after \<open>last_shown\<close> was assigned, so it changes nothing here.
\<close>

definition progress_text :: "int \<Rightarrow> string" where
  "progress_text percent =
     (if percent < 100 then ''Downloading... '' @ str_int percent @ ''%'' else ''Processing...'')"

fun update_progress_loop :: "int \<Rightarrow> int list \<Rightarrow> (int \<times> string) list" where
  "update_progress_loop last_shown [] = []"
| "update_progress_loop last_shown (percent # rest) =
     (if percent \<noteq> last_shown
      then (percent, progress_text percent)
             # (if percent \<ge> 100 then [] else update_progress_loop percent rest)
      else (if percent \<ge> 100 then [] else update_progress_loop last_shown rest))"

definition update_progress :: "int list \<Rightarrow> (int \<times> string) list" where
  "update_progress observed = update_progress_loop (- 1) observed"

section \<open>Video job (downloader.py: \<open>download_video\<close>)\<close>

text \<open>Exceptions of the source, as values.\<close>

datatype py_error =
    KeyError
  | TypeError
  | ValueError
  | OverflowError
  | FileNotFoundError
  | CalledProcessError int
  | DownloadError

subsection \<open>Paths (the pathlib operations the source calls)\<close>

text \<open>
  A path is the list of its components below the root directory \<open>/\<close>; every path of the
  source is absolute (\<open>DOWNLOAD_DIR\<close> is \<open>Path.home() / "Downloads" / "telegram-youtube"\<close>).
  \<open>name\<close>, \<open>suffix\<close>, \<open>stem\<close>, \<open>with_name\<close>, \<open>with_stem\<close> and \<open>with_suffix\<close>
  follow \<open>pathlib.PurePosixPath\<close> of CPython 3.9 to 3.13.
\<close>

type_synonym path = "string list"

fun rfind :: "string \<Rightarrow> char \<Rightarrow> int" where
  "rfind [] c = - 1"
| "rfind (x # xs) c =
     (let r = rfind xs c in if r \<ge> 0 then r + 1 else if x = c then 0 else - 1)"

definition path_name :: "path \<Rightarrow> string" where
  "path_name p = (if p = [] then [] else last p)"

definition path_suffix :: "path \<Rightarrow> string" where
  "path_suffix p =
     (let name = path_name p; i = rfind name (CHR ''.'')
      in if 0 < i \<and> i < int (length name) - 1 then drop (nat i) name else [])"

definition path_stem :: "path \<Rightarrow> string" where
  "path_stem p =
     (let name = path_name p; i = rfind name (CHR ''.'')
      in if 0 < i \<and> i < int (length name) - 1 then take (nat i) name else name)"

definition with_name :: "path \<Rightarrow> string \<Rightarrow> py_error + path" where
  "with_name p name =
     (if path_name p = [] then Inl ValueError
      else if name = [] \<or> CHR ''/'' \<in> set name \<or> name = ''.'' then Inl ValueError
      else Inr (butlast p @ [name]))"

definition with_stem :: "path \<Rightarrow> string \<Rightarrow> py_error + path" where
  "with_stem p stem = with_name p (stem @ path_suffix p)"

definition with_suffix :: "path \<Rightarrow> string \<Rightarrow> py_error + path" where
  "with_suffix p sfx =
     (if CHR ''/'' \<in> set sfx then Inl ValueError
      else if (sfx \<noteq> [] \<and> \<not> prefix ''.'' sfx) \<or> sfx = ''.'' then Inl ValueError
      else let name = path_name p in
        if name = [] then Inl ValueError
        else let old_suffix = path_suffix p;
                 name' = (if old_suffix = [] then name @ sfx
                          else take (length name - length old_suffix) name @ sfx)
             in Inr (butlast p @ [name']))"

subsection \<open>The artifact directory as a store of files\<close>

text \<open>
  The filesystem maps the path of every regular file to its bytes. \<open>Path.exists\<close>,
  \<open>Path.unlink\<close> and \<open>Path.rename\<close> raise FileNotFoundError as the source's calls do.
\<close>

type_synonym filesys = "path \<rightharpoonup> string"

definition path_exists :: "filesys \<Rightarrow> path \<Rightarrow> bool" where
  "path_exists fs p = (fs p \<noteq> None)"

definition unlink :: "filesys \<Rightarrow> path \<Rightarrow> py_error + filesys" where
  "unlink fs p = (if fs p = None then Inl FileNotFoundError else Inr (fs(p := None)))"

definition rename :: "filesys \<Rightarrow> path \<Rightarrow> path \<Rightarrow> py_error + filesys" where
  "rename fs src dst =
     (case fs src of None \<Rightarrow> Inl FileNotFoundError
      | Some bytes \<Rightarrow> Inr ((fs(src := None))(dst \<mapsto> bytes)))"

subsection \<open>The format selector\<close>

definition format_map :: "(string \<times> string) list" where
  "format_map =
     [(''best'', ''bestvideo[vcodec^=avc1]+bestaudio[acodec^=mp4a]/bestvideo[vcodec^=avc1]+bestaudio/best[vcodec^=avc1]/best''),
      (''720p'', ''bestvideo[height<=720][vcodec^=avc1]+bestaudio[acodec^=mp4a]/bestvideo[height<=720][vcodec^=avc1]+bestaudio/best[height<=720][vcodec^=avc1]/best[height<=720]''),
      (''480p'', ''bestvideo[height<=480][vcodec^=avc1]+bestaudio[acodec^=mp4a]/bestvideo[height<=480][vcodec^=avc1]+bestaudio/best[height<=480][vcodec^=avc1]/best[height<=480]'')]"

text \<open>\<open>d[k]\<close> raises KeyError on a missing key; \<open>d.get(k, default)\<close> does not.\<close>

definition dict_getitem :: "('k \<times> 'v) list \<Rightarrow> 'k \<Rightarrow> py_error + 'v" where
  "dict_getitem d k = (case map_of d k of None \<Rightarrow> Inl KeyError | Some v \<Rightarrow> Inr v)"

definition dict_get :: "('k \<times> 'v) list \<Rightarrow> 'k \<Rightarrow> 'v \<Rightarrow> 'v" where
  "dict_get d k dflt = (case map_of d k of None \<Rightarrow> dflt | Some v \<Rightarrow> v)"

text \<open>The value of \<open>ydl_opts["format"]\<close>: \<open>format_map.get(quality, format_map["best"])\<close>.\<close>

definition ydl_format :: "string \<Rightarrow> py_error + string" where
  "ydl_format quality =
     (case dict_getitem format_map ''best'' of
        Inl e \<Rightarrow> Inl e
      | Inr dflt \<Rightarrow> Inr (dict_get format_map quality dflt))"

subsection \<open>The job\<close>

text \<open>
  The extraction engine (yt-dlp) and the re-encoder (ffmpeg, run by \<open>subprocess.run\<close>)
  are external; they are the fields of \<open>engine\<close>.
  \<^item> \<open>extract_info url format fs\<close> is \<open>ydl.extract_info(url, download=True)\<close> under
    \<open>ydl_opts\<close>: it raises, or returns the info dict, and leaves the filesystem it returns.
  \<^item> \<open>prepare_filename info\<close> is \<open>Path(ydl.prepare_filename(info))\<close>.
  \<^item> \<open>ffmpeg fs input output\<close> is the run of
    \<open>ffmpeg -i input ... -y output\<close>: its return code and what it leaves at \<open>output\<close>,
    the one path the command line lets it write (\<open>None\<close>: no file there).
  Of the info dict the source reads \<open>info.get("vcodec", "")\<close> only: \<open>vcodec\<close> is \<open>None\<close>
  when the key is missing or holds \<open>None\<close> (both are falsy, as the empty string is).
  During \<open>extract_info\<close> the engine calls \<open>progress.hook\<close>; the hook writes no file and
  does not enter the value returned, and is modelled in its own section below.
\<close>

record video_info =
  vcodec :: "string option"
  title :: string

record engine =
  extract_info :: "string \<Rightarrow> string \<Rightarrow> filesys \<Rightarrow> (py_error + video_info) \<times> filesys"
  prepare_filename :: "video_info \<Rightarrow> path"
  ffmpeg :: "filesys \<Rightarrow> path \<Rightarrow> path \<Rightarrow> int \<times> string option"

text \<open>\<open>vcodec and not vcodec.startswith("avc")\<close>\<close>

definition needs_reencode :: "video_info \<Rightarrow> bool" where
  "needs_reencode info =
     (case vcodec info of None \<Rightarrow> False | Some v \<Rightarrow> v \<noteq> [] \<and> \<not> prefix ''avc'' v)"

text \<open>
  \<open>final_path = Path(filename); if not final_path.exists(): final_path = final_path.with_suffix(".mp4")\<close>
\<close>

definition final_path_of :: "engine \<Rightarrow> video_info \<Rightarrow> filesys \<Rightarrow> py_error + path" where
  "final_path_of eng info fs =
     (let final_path = prepare_filename eng info
      in if \<not> path_exists fs final_path then with_suffix final_path ''.mp4'' else Inr final_path)"

text \<open>\<open>h264_path = final_path.with_stem(final_path.stem + "_h264")\<close>\<close>

definition h264_path_of :: "path \<Rightarrow> py_error + path" where
  "h264_path_of final_path = with_stem final_path (path_stem final_path @ ''_h264'')"

text \<open>
  The re-encode block: \<open>subprocess.run([...], check=True)\<close> raises CalledProcessError on a
  non-zero return code, before \<open>unlink\<close> and \<open>rename\<close>. The result is the value returned or
  the exception raised, with the filesystem left behind in either case.
\<close>

definition reencode :: "engine \<Rightarrow> path \<Rightarrow> filesys \<Rightarrow> (py_error + path) \<times> filesys" where
  "reencode eng final_path fs =
     (case h264_path_of final_path of
        Inl e \<Rightarrow> (Inl e, fs)
      | Inr h264_path \<Rightarrow>
          (let (returncode, out) = ffmpeg eng fs final_path h264_path;
               fs1 = fs(h264_path := out)
           in if returncode \<noteq> 0 then (Inl (CalledProcessError returncode), fs1)
              else (case unlink fs1 final_path of
                      Inl e \<Rightarrow> (Inl e, fs1)
                    | Inr fs2 \<Rightarrow>
                        (case rename fs2 h264_path final_path of
                           Inl e \<Rightarrow> (Inl e, fs2)
                         | Inr fs3 \<Rightarrow> (Inr final_path, fs3)))))"

definition download_video :: "engine \<Rightarrow> string \<Rightarrow> string \<Rightarrow> filesys \<Rightarrow> (py_error + path) \<times> filesys" where
  "download_video eng url quality fs =
     (case ydl_format quality of
        Inl e \<Rightarrow> (Inl e, fs)
      | Inr fmt \<Rightarrow>
          (case extract_info eng url fmt fs of
             (Inl e, fs1) \<Rightarrow> (Inl e, fs1)
           | (Inr info, fs1) \<Rightarrow>
               (case final_path_of eng info fs1 of
                  Inl e \<Rightarrow> (Inl e, fs1)
                | Inr final_path \<Rightarrow>
                    if needs_reencode info then reencode eng final_path fs1
                    else (Inr final_path, fs1))))"

text \<open>
  A run for the examples: the engine leaves a VP9 stream at \<open>clip.mp4\<close> (the merged
  container) although the template names \<open>clip.webm\<close>, and ffmpeg exits with code 1
  after writing part of its output.
\<close>

definition example_engine :: engine where
  "example_engine =
     \<lparr> extract_info = (\<lambda>url fmt fs.
          (Inr \<lparr> vcodec = Some ''vp09.00.40.08'', title = ''clip'' \<rparr>,
           fs([''downloads'', ''clip.mp4''] \<mapsto> ''vp9 stream''))),
       prepare_filename = (\<lambda>info. [''downloads'', title info @ ''.webm'']),
       ffmpeg = (\<lambda>fs input output. (1, Some ''partial output'')) \<rparr>"

subsection \<open>The selector as a ranked chain\<close>

text \<open>
  The engine reads a format selector as alternatives separated by \<open>/\<close>, each a merge
  (\<open>+\<close>) of stream selectors, each a name (\<open>bestvideo\<close>: a video-only stream,
  \<open>bestaudio\<close>: an audio-only stream, \<open>best\<close>: one pre-merged stream with video and audio)
  followed by filters in brackets. \<open>parse_format\<close> reads the strings of \<open>format_map\<close>
  that way.
\<close>

fun split_on :: "char \<Rightarrow> string \<Rightarrow> string list" where
  "split_on c [] = [[]]"
| "split_on c (x # xs) =
     (if x = c then [] # split_on c xs
      else (case split_on c xs of [] \<Rightarrow> [[x]] | w # ws \<Rightarrow> (x # w) # ws))"

fun bracket_groups :: "bool \<Rightarrow> string \<Rightarrow> string \<Rightarrow> string list" where
  "bracket_groups inside acc [] = []"
| "bracket_groups False acc (c # cs) =
     (if c = CHR ''['' then bracket_groups True [] cs else bracket_groups False acc cs)"
| "bracket_groups True acc (c # cs) =
     (if c = CHR '']'' then rev acc # bracket_groups False [] cs else bracket_groups True (c # acc) cs)"

type_synonym stream_selector = "string \<times> string list"

definition parse_stream :: "string \<Rightarrow> stream_selector" where
  "parse_stream s = (takeWhile (\<lambda>c. c \<noteq> CHR ''['') s, bracket_groups False [] s)"

definition parse_format :: "string \<Rightarrow> stream_selector list list" where
  "parse_format f = map (\<lambda>alt. map parse_stream (split_on (CHR ''+'') alt)) (split_on (CHR ''/'') f)"

definition chain_of :: "string \<Rightarrow> stream_selector list list" where
  "chain_of quality = (case ydl_format quality of Inl e \<Rightarrow> [] | Inr f \<Rightarrow> parse_format f)"


text \<open>The height filter the strings of a tier carry on every alternative.\<close>

definition tier_filters :: "string \<Rightarrow> string list" where
  "tier_filters quality =
     (if quality = ''720p'' then [''height<=720'']
      else if quality = ''480p'' then [''height<=480''] else [])"

text \<open>
  The engine takes the first alternative that yields a stream on the source. What an
  alternative yields is the engine's: the parameter \<open>avail\<close>.
\<close>

fun select_first :: "('a \<Rightarrow> 'b option) \<Rightarrow> 'a list \<Rightarrow> 'b option" where
  "select_first avail [] = None"
| "select_first avail (a # as) = (case avail a of Some s \<Rightarrow> Some s | None \<Rightarrow> select_first avail as)"


text \<open>
  The order the specification states, in its words: exact codec and exact audio, then
  exact codec and any audio, then any codec at the resolution, then unconstrained.
\<close>

definition codec_constrained :: "stream_selector \<Rightarrow> bool" where
  "codec_constrained st = list_ex (prefix ''vcodec'') (snd st)"

definition audio_constrained :: "stream_selector \<Rightarrow> bool" where
  "audio_constrained st = list_ex (prefix ''acodec'') (snd st)"

definition exact_codec_exact_audio :: "stream_selector list \<Rightarrow> bool" where
  "exact_codec_exact_audio alt =
     (case alt of
        [v, a] \<Rightarrow> fst v = ''bestvideo'' \<and> codec_constrained v \<and> fst a = ''bestaudio'' \<and> audio_constrained a
      | _ \<Rightarrow> False)"

definition exact_codec_any_audio :: "stream_selector list \<Rightarrow> bool" where
  "exact_codec_any_audio alt =
     (case alt of
        [v, a] \<Rightarrow> fst v = ''bestvideo'' \<and> codec_constrained v \<and> fst a = ''bestaudio'' \<and> \<not> audio_constrained a
      | _ \<Rightarrow> False)"

definition any_codec_at_resolution :: "stream_selector list \<Rightarrow> bool" where
  "any_codec_at_resolution alt = (\<not> list_ex codec_constrained alt \<and> \<not> list_ex audio_constrained alt)"

definition unconstrained :: "stream_selector list \<Rightarrow> bool" where
  "unconstrained alt = (\<not> list_ex (\<lambda>st. snd st \<noteq> []) alt)"

definition claimed_fallback_order :: "stream_selector list list \<Rightarrow> bool" where
  "claimed_fallback_order chain =
     (case chain of
        [a, b, c, d] \<Rightarrow>
          exact_codec_exact_audio a \<and> exact_codec_any_audio b \<and> any_codec_at_resolution c \<and> unconstrained d
      | _ \<Rightarrow> False)"

text \<open>A source for the examples: only the pre-merged stream 18 of any codec is on offer.\<close>

definition premerged_only :: "stream_selector list \<Rightarrow> string option" where
  "premerged_only alt = (if map fst alt = [''best''] \<and> \<not> list_ex codec_constrained alt then Some ''18'' else None)"

section \<open>Static file server (fileserver.py: \<open>handle_download\<close>)\<close>

text \<open>
  The handler is glue around library calls: \<open>urllib.parse.unquote\<close>, the pathlib join
  \<open>DOWNLOAD_DIR / filename\<close>, \<open>Path.resolve\<close> (which follows \<open>..\<close> and symlinks on the
  filesystem) and \<open>os.stat\<close> behind \<open>Path.exists\<close> and \<open>Path.is_file\<close>. They are the
  fields of \<open>fs_env\<close>; \<open>stat\<close> gives the type of the file a path leads to, \<open>None\<close>
  when there is none. \<open>Path.relative_to\<close> is pure: it raises ValueError unless the
  other path is a prefix, component by component (the path itself included).

  The handler returns its response together with the filesystem calls it made, in order.
\<close>

datatype file_type = S_IFREG | S_IFDIR | S_IFOTHER




















section \<open>Progress hook (downloader.py: \<open>DownloadProgress.hook\<close>)\<close>





















section \<open>Static file server (fileserver.py: \<open>handle_index\<close>)\<close>























section \<open>Token store: proofs\<close>

lemma fold_delete_take_drop:
  "distinct (map fst xs) \<Longrightarrow> n \<le> length xs \<Longrightarrow>
   fold AList.delete (take n (map fst xs)) xs = drop n xs"
proof (induction n arbitrary: xs)
  case 0
  then show ?case by simp
next
  case (Suc n)
  then obtain p ps where xs: "xs = p # ps" by (cases xs) auto
  with Suc.prems have d: "distinct (map fst ps)" and notin: "fst p \<notin> fst ` set ps" and n: "n \<le> length ps"
    by auto
  have del: "AList.delete (fst p) ps = ps"
    using notin by (simp add: delete_id image_iff)
  have "fold AList.delete (take (Suc n) (map fst xs)) xs
        = fold AList.delete (take n (map fst ps)) (AList.delete (fst p) (p # ps))"
    by (simp add: xs)
  also have "\<dots> = fold AList.delete (take n (map fst ps)) ps"
    by (simp add: del)
  also have "\<dots> = drop n ps" using Suc.IH[OF d n] .
  finally show ?case by (simp add: xs)
qed

lemma evict_oldest_half_drop:
  "distinct (map fst store) \<Longrightarrow> evict_oldest_half store = drop (length store div 2) store"
  by (simp add: evict_oldest_half_def fold_delete_take_drop)

lemma length_update_le: "length (AList.update k v al) \<le> Suc (length al)"
  by (induction al) auto

lemma store_url_invariant:
  assumes "distinct (map fst store)" and "length store \<le> URL_STORE_MAX"
  shows "distinct (map fst (snd (store_url h store url))) \<and>
         length (snd (store_url h store url)) \<le> URL_STORE_MAX"
proof (cases "length store \<ge> URL_STORE_MAX")
  case True
  with assms have len: "length store = 100" by (simp add: URL_STORE_MAX_def)
  have s: "snd (store_url h store url) = AList.update (url_key h url) url (drop 50 store)"
    using True len assms(1) by (simp add: store_url_def evict_oldest_half_drop Let_def)
  have "length (AList.update (url_key h url) url (drop 50 store)) \<le> Suc (length (drop 50 store))"
    by (rule length_update_le)
  then have "length (snd (store_url h store url)) \<le> URL_STORE_MAX"
    using len by (simp add: s URL_STORE_MAX_def)
  moreover have "distinct (map fst (snd (store_url h store url)))"
    using assms(1) by (simp add: s distinct_update distinct_drop drop_map[symmetric])
  ultimately show ?thesis by simp
next
  case False
  then have s: "snd (store_url h store url) = AList.update (url_key h url) url store"
    by (simp add: store_url_def Let_def)
  have "length (AList.update (url_key h url) url store) \<le> Suc (length store)"
    by (rule length_update_le)
  then have "length (snd (store_url h store url)) \<le> URL_STORE_MAX"
    using False by (simp add: s)
  moreover have "distinct (map fst (snd (store_url h store url)))"
    using assms(1) by (simp add: s distinct_update)
  ultimately show ?thesis by simp
qed

lemma fold_store_invariant:
  "distinct (map fst store) \<Longrightarrow> length store \<le> URL_STORE_MAX \<Longrightarrow>
   distinct (map fst (fold (\<lambda>url store. snd (store_url h store url)) urls store)) \<and>
   length (fold (\<lambda>url store. snd (store_url h store url)) urls store) \<le> URL_STORE_MAX"
proof (induction urls arbitrary: store)
  case Nil
  then show ?case by simp
next
  case (Cons u us)
  from store_url_invariant[OF Cons.prems, of h u]
  show ?case using Cons.IH by simp
qed

lemma store_urls_invariant:
  "distinct (map fst (store_urls h urls)) \<and> length (store_urls h urls) \<le> URL_STORE_MAX"
  unfolding store_urls_def by (rule fold_store_invariant) (simp_all add: URL_STORE_MAX_def)



lemma store_urls_snoc:
  "store_urls h (urls @ [url]) = snd (store_url h (store_urls h urls) url)"
  by (simp add: store_urls_def)

text \<open>
  C4. After any sequence of calls of \<open>_store_url\<close> from the empty store, the store holds
  at most 100 entries; and when it holds 100, the next call leaves exactly the entries
  after the 50 oldest (in insertion order), with the new key assigned in what remains.
\<close>

theorem store_urls_bounded:
  "length (store_urls md5_hexdigest urls) \<le> 100 \<and>
   (URL_STORE_MAX \<le> length (store_urls md5_hexdigest urls) \<longrightarrow>
      store_urls md5_hexdigest (urls @ [url])
        = AList.update (url_key md5_hexdigest url) url (drop 50 (store_urls md5_hexdigest urls)))"
proof -
  let ?s = "store_urls md5_hexdigest urls"
  have inv: "distinct (map fst ?s)" "length ?s \<le> URL_STORE_MAX"
    using store_urls_invariant[of md5_hexdigest urls] by simp_all
  have "length ?s \<le> 100" using inv(2) by (simp add: URL_STORE_MAX_def)
  moreover have "store_urls md5_hexdigest (urls @ [url])
        = AList.update (url_key md5_hexdigest url) url (drop 50 ?s)"
    if full: "URL_STORE_MAX \<le> length ?s"
  proof -
    from full inv(2) have len: "length ?s = 100" by (simp add: URL_STORE_MAX_def)
    show ?thesis
      using full len inv(1)
      by (simp add: store_urls_snoc store_url_def Let_def evict_oldest_half_drop)
  qed
  ultimately show ?thesis by blast
qed

text \<open>A hundred URLs with pairwise different keys (the digest taken as the identity), then one more.\<close>

lemma update_fresh: "k \<notin> fst ` set al \<Longrightarrow> AList.update k v al = al @ [(k, v)]"
  by (induction al) auto

lemma store_urls_fresh:
  "distinct (map (url_key h) urls) \<Longrightarrow> length urls \<le> URL_STORE_MAX \<Longrightarrow>
   store_urls h urls = map (\<lambda>u. (url_key h u, u)) urls"
proof (induction urls rule: rev_induct)
  case Nil
  then show ?case by (simp add: store_urls_def)
next
  case (snoc u us)
  then have IH: "store_urls h us = map (\<lambda>u. (url_key h u, u)) us" by simp
  have len: "length (store_urls h us) < URL_STORE_MAX" using snoc.prems(2) by (simp add: IH)
  have fresh: "url_key h u \<notin> fst ` set (store_urls h us)"
    using snoc.prems(1) by (auto simp: IH image_iff)
  show ?case
    using len fresh by (simp add: store_urls_snoc store_url_def Let_def update_fresh) (simp add: IH)
qed

lemma example_urls_distinct: "distinct (map (url_key (\<lambda>u. u)) example_urls)"
proof -
  have "inj_on (\<lambda>n. [char_of (48 + n div 10), char_of (48 + n mod 10)] :: string) {0..<100::nat}"
  proof (rule inj_onI)
    fix x y :: nat assume x: "x \<in> {0..<100}" and y: "y \<in> {0..<100}"
      and eq: "[char_of (48 + x div 10), char_of (48 + x mod 10)] = ([char_of (48 + y div 10), char_of (48 + y mod 10)] :: string)"
    from eq have "(of_char (char_of (48 + x div 10) :: char) :: nat) = of_char (char_of (48 + y div 10) :: char)"
      and "(of_char (char_of (48 + x mod 10) :: char) :: nat) = of_char (char_of (48 + y mod 10) :: char)"
      by simp_all
    then have "(48 + x div 10) mod 256 = (48 + y div 10) mod 256" "(48 + x mod 10) mod 256 = (48 + y mod 10) mod 256"
      by simp_all
    moreover have "48 + x div 10 < 256" "48 + y div 10 < 256" "48 + x mod 10 < 256" "48 + y mod 10 < 256"
      using x y by simp_all
    ultimately have "x div 10 = y div 10" "x mod 10 = y mod 10" by simp_all
    then show "x = y" by (metis div_mult_mod_eq)
  qed
  then show ?thesis
    by (simp add: example_urls_def url_key_def distinct_map comp_def)
qed

lemma example_urls_fill:
  "length (store_urls (\<lambda>u. u) example_urls) = 100"
proof -
  have "length example_urls \<le> URL_STORE_MAX"
    by (simp add: example_urls_def URL_STORE_MAX_def)
  from store_urls_fresh[OF example_urls_distinct this]
  show ?thesis by (simp add: example_urls_def)
qed

theorem store_urls_bounded_witness:
  "URL_STORE_MAX \<le> length (store_urls (\<lambda>u. u) example_urls)
   \<and> length (store_urls (\<lambda>u. u) example_urls) \<le> 100
   \<and> store_urls (\<lambda>u. u) (example_urls @ [''https://youtu.be/abc123''])
        = AList.update ''https://yo'' ''https://youtu.be/abc123''
            (drop 50 (store_urls (\<lambda>u. u) example_urls))"
  using store_urls_bounded[of "\<lambda>u. u" example_urls "''https://youtu.be/abc123''"] example_urls_fill
  by (simp add: URL_STORE_MAX_def url_key_def)

section \<open>Progress throttler: proofs\<close>

lemma update_progress_loop_adj:
  "distinct_adj (map fst (update_progress_loop l obs)) \<and>
   (\<forall>c cs. update_progress_loop l obs = c # cs \<longrightarrow> fst c \<noteq> l)"
proof (induction obs arbitrary: l)
  case Nil
  then show ?case by simp
next
  case (Cons p rest)
  show ?case
  proof (cases "p = l")
    case True
    then show ?thesis using Cons.IH[of l] by simp
  next
    case False
    show ?thesis
    proof (cases "update_progress_loop p rest")
      case Nil
      then show ?thesis using False by simp
    next
      case (Cons c cs)
      with Cons.IH[of p] have "fst c \<noteq> p" "distinct_adj (map fst (c # cs))" by auto
      then show ?thesis using False Cons by simp
    qed
  qed
qed

lemma update_progress_loop_terminal:
  "\<forall>x\<in>set pre. x < 100 \<Longrightarrow> l < 100 \<Longrightarrow> 100 \<le> v \<Longrightarrow>
   update_progress_loop l (pre @ v # post) = update_progress_loop l pre @ [(v, ''Processing...'')]"
  by (induction pre arbitrary: l) (auto simp: progress_text_def)

text \<open>
  C5. For every sequence of values the loop reads: no two consecutive calls of the observer
  carry the same percent value; and when the first value \<open>\<ge> 100\<close> is read, the loop
  makes exactly one more call, the "Processing..." notification, and none after it,
  whatever values follow.
\<close>

theorem update_progress_throttles:
  "distinct_adj (map fst (update_progress observed)) \<and>
   ((\<forall>x\<in>set pre. x < 100) \<and> 100 \<le> v \<longrightarrow>
      update_progress (pre @ v # post) = update_progress pre @ [(v, ''Processing...'')])"
  unfolding update_progress_def
  using update_progress_loop_adj[of "- 1" observed]
    update_progress_loop_terminal[of pre "- 1" v post]
  by simp

theorem update_progress_throttles_witness:
  "list_all (\<lambda>x. x < 100) [0, 0, 37, 37, 80 :: int] \<and> (100 :: int) \<le> 100
   \<and> distinct_adj (map fst (update_progress [0, 0, 37, 37, 80, 100, 100, 12]))
   \<and> update_progress ([0, 0, 37, 37, 80] @ 100 # [100, 12])
       = [(0, ''Downloading... 0%''), (37, ''Downloading... 37%''), (80, ''Downloading... 80%''),
          (100, ''Processing...'')]"
  using update_progress_throttles[of "[0, 0, 37, 37, 80, 100, 100, 12]" "[0, 0, 37, 37, 80]" 100 "[100, 12]"]
  by (simp add: update_progress_def progress_text_def str_int_def)

section \<open>Video job: proofs\<close>

lemma ydl_format_total: "ydl_format quality = Inr (dict_get format_map quality (snd (hd format_map)))"
  by (simp add: ydl_format_def dict_getitem_def format_map_def)

lemma stem_suffix: "path_stem p @ path_suffix p = path_name p"
  by (simp add: path_stem_def path_suffix_def Let_def)

lemma h264_path_differs:
  assumes "h264_path_of final_path = Inr h264_path"
  shows "h264_path \<noteq> final_path"
proof -
  from assms have ne: "path_name final_path \<noteq> []"
    and h: "h264_path = butlast final_path @ [path_stem final_path @ ''_h264'' @ path_suffix final_path]"
    by (auto simp: h264_path_of_def with_stem_def with_name_def split: if_splits)
  from ne have fp: "final_path \<noteq> []" "last final_path = path_name final_path"
    by (auto simp: path_name_def split: if_splits)
  have "length (last h264_path) = length (path_stem final_path @ path_suffix final_path) + 5"
    by (simp add: h)
  then have "length (last h264_path) = length (last final_path) + 5"
    by (simp only: stem_suffix fp(2))
  then show ?thesis by auto
qed

lemma reencode_failure:
  assumes "h264_path_of final_path = Inr h264_path"
    and "fst (ffmpeg eng fs final_path h264_path) \<noteq> 0"
  shows "reencode eng final_path fs =
           (Inl (CalledProcessError (fst (ffmpeg eng fs final_path h264_path))),
            fs(h264_path := snd (ffmpeg eng fs final_path h264_path)))"
  using assms by (simp add: reencode_def split_beta Let_def)

lemma example_final_path:
  "final_path_of example_engine \<lparr> vcodec = Some ''vp09.00.40.08'', title = ''clip'' \<rparr>
     (Map.empty([''downloads'', ''clip.mp4''] \<mapsto> ''vp9 stream'')) = Inr [''downloads'', ''clip.mp4'']"
  by (simp add: final_path_of_def example_engine_def path_exists_def with_suffix_def path_name_def
      path_suffix_def Let_def)

lemma example_h264_path:
  "h264_path_of [''downloads'', ''clip.mp4''] = Inr [''downloads'', ''clip_h264.mp4'']"
  by (simp add: h264_path_of_def with_stem_def with_name_def path_stem_def path_name_def
      path_suffix_def Let_def)

text \<open>
  C2. In a video job whose download succeeded, whose codec tag is outside the avc family
  and whose ffmpeg run returns a non-zero code, \<open>download_video\<close> raises
  CalledProcessError with that code, and the filesystem it leaves differs from the one
  the download left at no path other than the side-by-side \<open>_h264\<close> output: the file
  at the canonical path \<open>final_path\<close> holds the bytes it held before the re-encode.
\<close>

theorem reencode_failure_keeps_artifact:
  assumes "ydl_format quality = Inr fmt"
    and "extract_info eng url fmt fs = (Inr info, fs1)"
    and "final_path_of eng info fs1 = Inr final_path"
    and "needs_reencode info"
    and "h264_path_of final_path = Inr h264_path"
    and "fst (ffmpeg eng fs1 final_path h264_path) \<noteq> 0"
  shows "fst (download_video eng url quality fs)
           = Inl (CalledProcessError (fst (ffmpeg eng fs1 final_path h264_path)))
         \<and> snd (download_video eng url quality fs) final_path = fs1 final_path
         \<and> (\<forall>p. p \<noteq> h264_path \<longrightarrow> snd (download_video eng url quality fs) p = fs1 p)"
proof -
  have dv: "download_video eng url quality fs = reencode eng final_path fs1"
    using assms(1-4) by (simp add: download_video_def)
  have ne: "h264_path \<noteq> final_path" using assms(5) by (rule h264_path_differs)
  show ?thesis
    using ne by (simp add: dv reencode_failure[OF assms(5,6)])
qed

theorem reencode_failure_keeps_artifact_witness:
  "fst (download_video example_engine ''https://youtu.be/abc123'' ''720p'' Map.empty)
     = Inl (CalledProcessError 1)
   \<and> snd (download_video example_engine ''https://youtu.be/abc123'' ''720p'' Map.empty)
       [''downloads'', ''clip.mp4''] = Some ''vp9 stream''
   \<and> snd (download_video example_engine ''https://youtu.be/abc123'' ''720p'' Map.empty)
       [''downloads'', ''clip_h264.mp4''] = Some ''partial output''"
proof -
  let ?info = "\<lparr> vcodec = Some ''vp09.00.40.08'', title = ''clip'' \<rparr>"
  let ?fs1 = "Map.empty([''downloads'', ''clip.mp4''] \<mapsto> ''vp9 stream'')"
  have 1: "ydl_format ''720p'' = Inr (dict_get format_map ''720p'' (snd (hd format_map)))"
    by (rule ydl_format_total)
  have 2: "extract_info example_engine ''https://youtu.be/abc123''
             (dict_get format_map ''720p'' (snd (hd format_map))) Map.empty = (Inr ?info, ?fs1)"
    by (simp add: example_engine_def)
  have 4: "needs_reencode ?info" by (simp add: needs_reencode_def)
  have 6: "fst (ffmpeg example_engine ?fs1 [''downloads'', ''clip.mp4''] [''downloads'', ''clip_h264.mp4'']) \<noteq> 0"
    by (simp add: example_engine_def)
  have 7: "fst (ffmpeg example_engine ?fs1 [''downloads'', ''clip.mp4''] [''downloads'', ''clip_h264.mp4'']) = 1"
    by (simp add: example_engine_def)
  have 8: "snd (download_video example_engine ''https://youtu.be/abc123'' ''720p'' Map.empty)
       [''downloads'', ''clip_h264.mp4''] = Some ''partial output''"
    by (simp add: download_video_def 1 2 4 example_final_path reencode_def example_h264_path)
       (simp add: example_engine_def)
  from reencode_failure_keeps_artifact[OF 1 2 example_final_path 4 example_h264_path 6]
  show ?thesis using 8 by (simp add: 7)
qed



section \<open>Format selector: proofs\<close>

lemmas chain_eval = chain_of_def ydl_format_def dict_getitem_def dict_get_def format_map_def
  parse_format_def parse_stream_def

lemma chain_of_best:
  "chain_of ''best'' =
     [[(''bestvideo'', [''vcodec^=avc1'']), (''bestaudio'', [''acodec^=mp4a''])],
      [(''bestvideo'', [''vcodec^=avc1'']), (''bestaudio'', [])],
      [(''best'', [''vcodec^=avc1''])],
      [(''best'', [])]]"
  by (simp add: chain_eval)

lemma chain_of_720p:
  "chain_of ''720p'' =
     [[(''bestvideo'', [''height<=720'', ''vcodec^=avc1'']), (''bestaudio'', [''acodec^=mp4a''])],
      [(''bestvideo'', [''height<=720'', ''vcodec^=avc1'']), (''bestaudio'', [])],
      [(''best'', [''height<=720'', ''vcodec^=avc1''])],
      [(''best'', [''height<=720''])]]"
  by (simp add: chain_eval)

lemma chain_of_480p:
  "chain_of ''480p'' =
     [[(''bestvideo'', [''height<=480'', ''vcodec^=avc1'']), (''bestaudio'', [''acodec^=mp4a''])],
      [(''bestvideo'', [''height<=480'', ''vcodec^=avc1'']), (''bestaudio'', [])],
      [(''best'', [''height<=480'', ''vcodec^=avc1''])],
      [(''best'', [''height<=480''])]]"
  by (simp add: chain_eval)

lemma chain_of_other:
  "quality \<notin> {''best'', ''720p'', ''480p''} \<Longrightarrow> chain_of quality = chain_of ''best''"
proof -
  assume "quality \<notin> {''best'', ''720p'', ''480p''}"
  then have "map_of format_map quality = None" by (simp add: format_map_def)
  then have "ydl_format quality = ydl_format ''best''"
    by (simp add: ydl_format_def dict_get_def dict_getitem_def format_map_def)
  then show ?thesis by (simp add: chain_of_def)
qed

text \<open>
  C6, as stated, fails: in the chain of the 720p tier the third alternative is still
  bound to the avc1 codec, and the last one is bound to the height limit, so the chain is
  not "any codec at the resolution, then unconstrained".
\<close>

theorem fallback_order_counterexample:
  "\<not> claimed_fallback_order (chain_of ''720p'')
   \<and> codec_constrained (hd (chain_of ''720p'' ! 2))
   \<and> \<not> unconstrained (chain_of ''720p'' ! 3)"
  by (simp add: chain_of_720p claimed_fallback_order_def any_codec_at_resolution_def
      unconstrained_def codec_constrained_def)

text \<open>
  C6, amended. For every quality string the chain has four alternatives, in this order:
  avc1 video with mp4a audio, avc1 video with any audio, one pre-merged avc1 stream, one
  pre-merged stream of any codec; each carries the tier's height limit (none for
  \<open>best\<close> and for unknown tiers). When the three avc1 alternatives yield nothing, the
  selection is what the last alternative yields: the job is served exactly when the
  source offers a pre-merged stream within the height limit.
\<close>

theorem fallback_chain:
  "chain_of quality =
     [[(''bestvideo'', tier_filters quality @ [''vcodec^=avc1'']), (''bestaudio'', [''acodec^=mp4a''])],
      [(''bestvideo'', tier_filters quality @ [''vcodec^=avc1'']), (''bestaudio'', [])],
      [(''best'', tier_filters quality @ [''vcodec^=avc1''])],
      [(''best'', tier_filters quality)]]
   \<and> (avail (chain_of quality ! 0) = None \<and> avail (chain_of quality ! 1) = None
        \<and> avail (chain_of quality ! 2) = None
      \<longrightarrow> select_first avail (chain_of quality) = avail [(''best'', tier_filters quality)])"
proof -
  have chain: "chain_of quality =
     [[(''bestvideo'', tier_filters quality @ [''vcodec^=avc1'']), (''bestaudio'', [''acodec^=mp4a''])],
      [(''bestvideo'', tier_filters quality @ [''vcodec^=avc1'']), (''bestaudio'', [])],
      [(''best'', tier_filters quality @ [''vcodec^=avc1''])],
      [(''best'', tier_filters quality)]]"
  proof (cases "quality \<in> {''best'', ''720p'', ''480p''}")
    case True
    then consider "quality = ''best''" | "quality = ''720p''" | "quality = ''480p''" by auto
    then show ?thesis
    proof cases
      case 1 then show ?thesis by (simp add: chain_of_best tier_filters_def)
    next
      case 2 then show ?thesis by (simp add: chain_of_720p tier_filters_def)
    next
      case 3 then show ?thesis by (simp add: chain_of_480p tier_filters_def)
    qed
  next
    case False
    then have "tier_filters quality = []" by (auto simp: tier_filters_def)
    then show ?thesis using chain_of_other[OF False] by (simp add: chain_of_best)
  qed
  show ?thesis
    by (rule conjI[OF chain]) (simp add: chain split: option.split)
qed

theorem fallback_chain_witness:
  "premerged_only (chain_of ''480p'' ! 0) = None \<and> premerged_only (chain_of ''480p'' ! 1) = None
   \<and> premerged_only (chain_of ''480p'' ! 2) = None
   \<and> select_first premerged_only (chain_of ''480p'') = Some ''18''"
  using fallback_chain[of "''480p''" premerged_only]
  by (simp add: chain_of_480p premerged_only_def codec_constrained_def tier_filters_def)

section \<open>Static file server: proofs\<close>







section \<open>Progress hook: proofs\<close>




























section \<open>Static file server, index: proofs\<close>




















end
